theory Spec2Isabelle
  imports Main "HOL-Library.Sublist"
begin

section \<open>Python strings\<close>

text \<open>
  Python \<open>str\<close> values are modelled as \<open>string\<close>, a list of characters, each character
  a code point below 256 (ASCII and Latin-1 text). On these code points \<open>str.lower\<close>
  maps \<open>A\<close>..\<open>Z\<close> and the capital letters from 192 to 222 (but not the sign at 215) to the
  letter 32 places further; the whitespace of \<open>str.strip\<close>, and of the class \<open>\s\<close> of a
  text pattern, is the code points 9 to 13, 28 to 32, 133 and 160.
\<close>

definition isspace :: "char \<Rightarrow> bool" where
  "isspace c =
     (let n = (of_char c :: nat)
      in (9 \<le> n \<and> n \<le> 13) \<or> (28 \<le> n \<and> n \<le> 32) \<or> n = 133 \<or> n = 160)"

definition lower_char :: "char \<Rightarrow> char" where
  "lower_char c =
     (let n = (of_char c :: nat)
      in if (65 \<le> n \<and> n \<le> 90) \<or> (192 \<le> n \<and> n \<le> 222 \<and> n \<noteq> 215)
         then char_of (n + 32) else c)"

definition lower :: "string \<Rightarrow> string" where
  "lower s = map lower_char s"

definition lstrip :: "string \<Rightarrow> string" where
  "lstrip s = dropWhile isspace s"

definition rstrip :: "string \<Rightarrow> string" where
  "rstrip s = rev (dropWhile isspace (rev s))"

definition strip :: "string \<Rightarrow> string" where
  "strip s = rstrip (lstrip s)"

text \<open>\<open>contains sub s\<close> is Python's \<open>sub in s\<close> on two strings.\<close>

fun contains :: "string \<Rightarrow> string \<Rightarrow> bool" where
  "contains sub [] = (sub = [])"
| "contains sub (c # cs) = (prefix sub (c # cs) \<or> contains sub cs)"

section \<open>Backtracking regular expressions\<close>

text \<open>
  The two patterns of the normalizer are written in a small pattern language and run by a
  backtracking matcher in the manner of Python's \<open>re\<close> module. A matcher state is the
  position in the subject, the text still to be read and the groups captured so far.
  \<open>ms r st\<close> lists every way in which \<open>r\<close> can match from \<open>st\<close>, in the order in which
  a backtracking engine tries them: the first alternative before the second, a greedy
  repetition with more iterations before fewer, an optional part present before absent.
  \<open>Cls P\<close> reads one character of the class \<open>P\<close>, \<open>Grp n r\<close> is the capturing group
  \<open>n\<close>, \<open>Bol\<close> and \<open>Eol\<close> are \<open>^\<close> and \<open>$\<close> without the multi-line flag. A repetition
  goes on only after an iteration that has read something, which makes the matcher total;
  the two patterns repeat single characters only.
\<close>

datatype rx =
    Lit string
  | Cls "char \<Rightarrow> bool"
  | Seq rx rx
  | Alt rx rx
  | Opt rx
  | Star rx
  | Grp nat rx
  | Bol
  | Eol

type_synonym groups = "nat \<Rightarrow> string option"
type_synonym mstate = "nat \<times> string \<times> groups"

definition newline :: char where
  "newline = CHR 0x0A"

function ms :: "rx \<Rightarrow> mstate \<Rightarrow> mstate list" where
  "ms (Lit w) (p, s, g) =
     (if prefix w s then [(p + length w, drop (length w) s, g)] else [])"
| "ms (Cls P) (p, s, g) =
     (case s of [] \<Rightarrow> [] | c # cs \<Rightarrow> if P c then [(Suc p, cs, g)] else [])"
| "ms (Seq a b) (p, s, g) = concat (map (ms b) (ms a (p, s, g)))"
| "ms (Alt a b) (p, s, g) = ms a (p, s, g) @ ms b (p, s, g)"
| "ms (Opt a) (p, s, g) = ms a (p, s, g) @ [(p, s, g)]"
| "ms (Star a) (p, s, g) =
     concat (map (\<lambda>(p', s', g'). if length s' < length s then ms (Star a) (p', s', g') else [])
                 (ms a (p, s, g)))
     @ [(p, s, g)]"
| "ms (Grp n a) (p, s, g) =
     map (\<lambda>(p', s', g'). (p', s', g'(n \<mapsto> take (p' - p) s))) (ms a (p, s, g))"
| "ms Bol (p, s, g) = (if p = 0 then [(p, s, g)] else [])"
| "ms Eol (p, s, g) = (if s = [] \<or> s = [newline] then [(p, s, g)] else [])"
  by pat_completeness auto
termination
  by (relation "inv_image (less_than <*lex*> less_than) (\<lambda>(r, p, s, g). (size r, length s))") auto

text \<open>\<open>a+\<close> is \<open>aa*\<close>.\<close>

definition Plus :: "rx \<Rightarrow> rx" where
  "Plus a = Seq a (Star a)"

text \<open>\<open>re.match\<close>: the pattern is tried at the start of the subject only.\<close>

definition re_match :: "rx \<Rightarrow> string \<Rightarrow> groups option" where
  "re_match r s = (case ms r (0, s, \<lambda>_. None) of [] \<Rightarrow> None | (_, _, g) # _ \<Rightarrow> Some g)"

text \<open>\<open>re.search\<close>: the pattern is tried at every position from left to right.\<close>

fun search_from :: "rx \<Rightarrow> nat \<Rightarrow> string \<Rightarrow> groups option" where
  "search_from r p [] = (case ms r (p, [], \<lambda>_. None) of [] \<Rightarrow> None | (_, _, g) # _ \<Rightarrow> Some g)"
| "search_from r p (c # cs) =
     (case ms r (p, c # cs, \<lambda>_. None) of [] \<Rightarrow> search_from r (Suc p) cs | (_, _, g) # _ \<Rightarrow> Some g)"

definition re_search :: "rx \<Rightarrow> string \<Rightarrow> groups option" where
  "re_search r s = search_from r 0 s"

text \<open>\<open>^(?:a|an)(?:\s+(.*))?$\<close>\<close>

definition article_rx :: rx where
  "article_rx =
     Seq Bol (Seq (Alt (Lit ''a'') (Lit ''an''))
       (Seq (Opt (Seq (Plus (Cls isspace)) (Grp 1 (Star (Cls (\<lambda>c. c \<noteq> newline))))))
            Eol))"

definition is_alpha_hyphen :: "char \<Rightarrow> bool" where
  "is_alpha_hyphen c =
     (let n = (of_char c :: nat) in (97 \<le> n \<and> n \<le> 122) \<or> (65 \<le> n \<and> n \<le> 90) \<or> n = 45)"

text \<open>\<open>(?:half|quarter)\s+(?:an|a|the)?\s*([a-zA-Z\-]+)\<close>\<close>

definition fraction_rx :: rx where
  "fraction_rx =
     Seq (Alt (Lit ''half'') (Lit ''quarter''))
       (Seq (Plus (Cls isspace))
         (Seq (Opt (Alt (Lit ''an'') (Alt (Lit ''a'') (Lit ''the''))))
           (Seq (Star (Cls isspace)) (Grp 1 (Plus (Cls is_alpha_hyphen))))))"

section \<open>Python values and exceptions\<close>

text \<open>
  The fields of an extracted item are strings, \<open>None\<close>, or dicts carrying the text under
  the key \<open>text\<close>. A dict is an association list in insertion order; a lookup takes the
  binding of the key.
\<close>

datatype pyval = PNone | PStr string | PDict "(string \<times> pyval) list"

text \<open>Exceptions derived from \<open>Exception\<close>, each with the message that \<open>str\<close> returns.\<close>

datatype exn =
    RuntimeError string | AttributeError string | TypeError string | KeyError string
  | Raised string

text \<open>A word in single quotes, as Python's messages print a type or a key.\<close>

definition sq :: "string \<Rightarrow> string" where
  "sq s = [CHR 0x27] @ s @ [CHR 0x27]"

fun str_exn :: "exn \<Rightarrow> string" where
  "str_exn (RuntimeError m) = m"
| "str_exn (AttributeError m) = m"
| "str_exn (TypeError m) = m"
| "str_exn (KeyError k) = sq k"
| "str_exn (Raised m) = m"

definition no_attribute :: "string \<Rightarrow> string \<Rightarrow> exn" where
  "no_attribute ty attr = AttributeError (sq ty @ '' object has no attribute '' @ sq attr)"

fun truthy :: "pyval \<Rightarrow> bool" where
  "truthy PNone = False"
| "truthy (PStr s) = (s \<noteq> [])"
| "truthy (PDict d) = (d \<noteq> [])"

text \<open>\<open>x or y\<close>\<close>

definition py_or :: "pyval \<Rightarrow> pyval \<Rightarrow> pyval" where
  "py_or x y = (if truthy x then x else y)"

text \<open>\<open>x.strip()\<close>: only a string has the method.\<close>

fun py_strip :: "pyval \<Rightarrow> exn + string" where
  "py_strip (PStr s) = Inr (strip s)"
| "py_strip PNone = Inl (no_attribute ''NoneType'' ''strip'')"
| "py_strip (PDict d) = Inl (no_attribute ''dict'' ''strip'')"

text \<open>\<open>d.get(k)\<close>\<close>

definition dict_get :: "(string \<times> pyval) list \<Rightarrow> string \<Rightarrow> pyval" where
  "dict_get d k = (case map_of d k of None \<Rightarrow> PNone | Some v \<Rightarrow> v)"

section \<open>The normalizer\<close>

text \<open>
  Lines 55 to 60 of \<open>_normalize_quantity_and_name\<close>: the article rule, on the trimmed
  quantity text. The result is the new quantity text; the source recomputes its lower-cased
  copy from it.
\<close>

definition article_rule :: "string \<Rightarrow> string" where
  "article_rule qty_text =
     (case re_match article_rx (lower qty_text) of
        None \<Rightarrow> qty_text
      | Some g \<Rightarrow>
          ''1'' @ (case g 1 of None \<Rightarrow> [] | Some rest \<Rightarrow> if rest = [] then [] else '' '' @ rest))"

text \<open>
  Lines 62 to 77: the fraction rule, on the name and the quantity text left by the article
  rule. Group 1 of a match of this pattern is always set; the branch for an unset group
  follows what Python does with \<open>None\<close> there.
\<close>

definition fraction_rule :: "string \<Rightarrow> string \<Rightarrow> exn + (string \<times> string)" where
  "fraction_rule name qty_text =
     (let lqty = lower qty_text in
      if contains ''half'' lqty \<or> contains ''quarter'' lqty then
        (let frac = (if contains ''half'' lqty then ''1/2'' else ''1/4'') in
         case re_search fraction_rx lqty of
           None \<Rightarrow> Inr (name, frac)
         | Some g \<Rightarrow>
             (case g 1 of
                Some referred \<Rightarrow>
                  if contains ''toast'' (lower name) \<and> contains referred (lower name)
                  then Inr (referred, frac)
                  else Inr (name, frac @ '' '' @ referred)
              | None \<Rightarrow>
                  if contains ''toast'' (lower name)
                  then Inl (TypeError
                    (sq ''in <string>'' @ '' requires string as left operand, not NoneType''))
                  else Inr (name, frac @ '' None'')))
      else Inr (name, qty_text))"

definition normalize_quantity_and_name :: "string \<Rightarrow> pyval \<Rightarrow> exn + (string \<times> string)" where
  "normalize_quantity_and_name name qty_text =
     (case py_strip (py_or qty_text (PStr [])) of
        Inl e \<Rightarrow> Inl e
      | Inr q \<Rightarrow>
          (case fraction_rule name (article_rule q) of
             Inl e \<Rightarrow> Inl e
           | Inr (name', q') \<Rightarrow> Inr (strip name', strip q')))"

section \<open>Parsing and merging\<close>

record ingredient =
  name :: string
  quantity :: string

type_synonym item = "(string \<times> pyval) list"

datatype json =
    JNull | JBool bool | JNum int | JStr string | JArr "json list" | JObj "(string \<times> json) list"

text \<open>
  The extractor: \<open>extract_json\<close> on the request text with the fixed schema. It raises, or
  returns a dict whose \<open>ingredients\<close> entry, when present, is the list of items.
\<close>

type_synonym extractor = "json \<Rightarrow> exn + item list option"

text \<open>\<open>if isinstance(v, dict): v = v.get("text")\<close>\<close>

definition unwrap :: "pyval \<Rightarrow> pyval" where
  "unwrap v = (case v of PDict d \<Rightarrow> dict_get d ''text'' | _ \<Rightarrow> v)"

text \<open>Lines 102 to 114: the loop that builds \<open>parsed\<close>.\<close>

fun parse_items :: "item list \<Rightarrow> exn + ingredient list" where
  "parse_items [] = Inr []"
| "parse_items (item # items) =
     (let raw_name = unwrap (dict_get item ''name'');
          qty = unwrap (dict_get item ''quantity'')
      in if \<not> truthy raw_name then parse_items items
         else case py_strip raw_name of
                Inl e \<Rightarrow> Inl e
              | Inr stripped \<Rightarrow>
                  (case normalize_quantity_and_name stripped qty of
                     Inl e \<Rightarrow> Inl e
                   | Inr (n, q) \<Rightarrow>
                       (case parse_items items of
                          Inl e \<Rightarrow> Inl e
                        | Inr parsed \<Rightarrow> Inr (\<lparr>name = n, quantity = q\<rparr> # parsed))))"

text \<open>\<open>d[k] = v\<close> on an insertion-ordered dict: a present key keeps its place.\<close>

fun dict_set :: "('k \<times> 'v) list \<Rightarrow> 'k \<Rightarrow> 'v \<Rightarrow> ('k \<times> 'v) list" where
  "dict_set [] k v = [(k, v)]"
| "dict_set ((k', v') # d) k v = (if k' = k then (k, v) # d else (k', v') # dict_set d k v)"

definition merge_key :: "ingredient \<Rightarrow> string" where
  "merge_key p = lower (strip (name p))"

text \<open>Lines 118 to 125: one turn of the merging loop.\<close>

definition merge_step ::
  "(string \<times> ingredient) list \<Rightarrow> ingredient \<Rightarrow> (string \<times> ingredient) list" where
  "merge_step merged p =
     (let key = merge_key p in
      case map_of merged key of
        None \<Rightarrow> dict_set merged key p
      | Some old \<Rightarrow>
          if quantity old = [] \<and> quantity p \<noteq> [] then dict_set merged key p else merged)"

definition merged_dict :: "ingredient list \<Rightarrow> (string \<times> ingredient) list" where
  "merged_dict parsed = foldl merge_step [] parsed"

text \<open>\<open>list(merged.values())\<close>\<close>

definition merge_duplicates :: "ingredient list \<Rightarrow> ingredient list" where
  "merge_duplicates parsed = map snd (merged_dict parsed)"

section \<open>Loading the extractor\<close>

text \<open>
  The process environment: the imported \<open>GLiNER2\<close> class (\<open>None\<close> when the import failed)
  with the outcome of its two constructors, the variable \<open>PIONEER_API_KEY\<close> and the
  default model name.
\<close>

record gliner2 =
  from_api :: "exn + extractor"
  from_pretrained :: "string \<Rightarrow> exn + extractor"

record env =
  GLiNER2 :: "gliner2 option"
  PIONEER_API_KEY :: "string option"
  DEFAULT_MODEL :: string

definition load_extractor :: "env \<Rightarrow> bool \<Rightarrow> string \<Rightarrow> exn + extractor" where
  "load_extractor e use_api model_name =
     (if use_api then
        (case GLiNER2 e of
           None \<Rightarrow> Inl (RuntimeError
             ''GLiNER2 library not available; install gliner2 or run without API mode'')
         | Some lib \<Rightarrow> from_api lib)
      else
        (case GLiNER2 e of
           None \<Rightarrow> Inl (RuntimeError
             ''GLiNER2 library not available; install gliner2 or set PIONEER_API_KEY to use API mode'')
         | Some lib \<Rightarrow> from_pretrained lib model_name))"

text \<open>\<open>bool(os.getenv("PIONEER_API_KEY"))\<close>\<close>

definition use_api_of :: "env \<Rightarrow> bool" where
  "use_api_of e = (case PIONEER_API_KEY e of None \<Rightarrow> False | Some v \<Rightarrow> v \<noteq> [])"

definition parse_ingredients :: "env \<Rightarrow> json \<Rightarrow> extractor option \<Rightarrow> exn + ingredient list" where
  "parse_ingredients e text extractor =
     (case (case extractor of
              None \<Rightarrow> load_extractor e (use_api_of e) (DEFAULT_MODEL e)
            | Some ex \<Rightarrow> Inr ex) of
        Inl err \<Rightarrow> Inl err
      | Inr ex \<Rightarrow>
          (case ex text of
             Inl err \<Rightarrow> Inl err
           | Inr out \<Rightarrow>
               (case parse_items (case out of None \<Rightarrow> [] | Some results \<Rightarrow> results) of
                  Inl err \<Rightarrow> Inl err
                | Inr parsed \<Rightarrow> Inr (merge_duplicates parsed))))"

section \<open>The route\<close>

text \<open>
  The request body as \<open>request.get_json(silent=True)\<close> sees it: \<open>None\<close> when there is no
  JSON to parse, the parsed value otherwise. Integers stand for the JSON numbers: the route
  only tests a number for zero.
\<close>

definition get_json :: "json option \<Rightarrow> json" where
  "get_json request_body = (case request_body of None \<Rightarrow> JNull | Some j \<Rightarrow> j)"

fun truthy_json :: "json \<Rightarrow> bool" where
  "truthy_json JNull = False"
| "truthy_json (JBool b) = b"
| "truthy_json (JNum n) = (n \<noteq> 0)"
| "truthy_json (JStr s) = (s \<noteq> [])"
| "truthy_json (JArr xs) = (xs \<noteq> [])"
| "truthy_json (JObj d) = (d \<noteq> [])"

definition not_iterable :: "string \<Rightarrow> exn" where
  "not_iterable ty = TypeError (''argument of type '' @ sq ty @ '' is not iterable'')"

text \<open>\<open>k in payload\<close> for a string \<open>k\<close>\<close>

fun json_in :: "string \<Rightarrow> json \<Rightarrow> exn + bool" where
  "json_in k (JObj d) = Inr (k \<in> fst ` set d)"
| "json_in k (JArr xs) = Inr (JStr k \<in> set xs)"
| "json_in k (JStr s) = Inr (contains k s)"
| "json_in k (JNum n) = Inl (not_iterable ''int'')"
| "json_in k (JBool b) = Inl (not_iterable ''bool'')"
| "json_in k JNull = Inl (not_iterable ''NoneType'')"

definition not_subscriptable :: "string \<Rightarrow> exn" where
  "not_subscriptable ty = TypeError (sq ty @ '' object is not subscriptable'')"

text \<open>\<open>payload[k]\<close> for a string \<open>k\<close>\<close>

fun json_getitem :: "json \<Rightarrow> string \<Rightarrow> exn + json" where
  "json_getitem (JObj d) k = (case map_of d k of None \<Rightarrow> Inl (KeyError k) | Some v \<Rightarrow> Inr v)"
| "json_getitem (JArr xs) k =
     Inl (TypeError ''list indices must be integers or slices, not str'')"
| "json_getitem (JStr s) k =
     Inl (TypeError (''string indices must be integers, not '' @ sq ''str''))"
| "json_getitem (JNum n) k = Inl (not_subscriptable ''int'')"
| "json_getitem (JBool b) k = Inl (not_subscriptable ''bool'')"
| "json_getitem JNull k = Inl (not_subscriptable ''NoneType'')"

datatype body = ErrorBody string | IngredientsBody "ingredient list" | StatusBody string

text \<open>
  A response is a status and a JSON body. An exception that leaves the view function is
  \<open>Inl\<close>: the route did not produce a response of its own.
\<close>

type_synonym response = "nat \<times> body"

definition health :: response where
  "health = (200, StatusBody ''ok'')"

definition parse_route :: "env \<Rightarrow> json option \<Rightarrow> exn + response" where
  "parse_route e request_body =
     (let payload = get_json request_body in
      case (if \<not> truthy_json payload then Inr True
            else (case json_in ''text'' payload of Inl err \<Rightarrow> Inl err | Inr b \<Rightarrow> Inr (\<not> b))) of
        Inl err \<Rightarrow> Inl err
      | Inr True \<Rightarrow> Inr (400, ErrorBody ''missing 'text' in JSON body'')
      | Inr False \<Rightarrow>
          (case json_getitem payload ''text'' of
             Inl err \<Rightarrow> Inl err
           | Inr text \<Rightarrow>
               (case load_extractor e (use_api_of e) (DEFAULT_MODEL e) of
                  Inl err \<Rightarrow> Inr (500, ErrorBody (str_exn err))
                | Inr extractor \<Rightarrow>
                    (case parse_ingredients e text (Some extractor) of
                       Inl err \<Rightarrow> Inr (500, ErrorBody (''parse failed: '' @ str_exn err))
                     | Inr ingredients \<Rightarrow> Inr (200, IngredientsBody ingredients)))))"

text \<open>
  The order in which the distinct elements of a list are first seen: each element once, at
  the place of its first occurrence.
\<close>

fun first_seen :: "'a list \<Rightarrow> 'a list" where
  "first_seen [] = []"
| "first_seen (k # ks) = k # removeAll k (first_seen ks)"

section \<open>Trimming and lower-casing\<close>

lemma dropWhile_id_iff: "dropWhile P xs = xs \<longleftrightarrow> (xs = [] \<or> \<not> P (hd xs))"
proof (cases xs)
  case Nil
  then show ?thesis by simp
next
  case (Cons a l)
  have "length (dropWhile P l) \<le> length l" by (rule length_dropWhile_le)
  then have "dropWhile P l \<noteq> a # l" by auto
  with Cons show ?thesis by auto
qed

lemma lstrip_id_iff: "lstrip s = s \<longleftrightarrow> (s = [] \<or> \<not> isspace (hd s))"
  unfolding lstrip_def by (rule dropWhile_id_iff)

lemma rstrip_id_iff: "rstrip s = s \<longleftrightarrow> (s = [] \<or> \<not> isspace (last s))"
proof -
  have "rstrip s = s \<longleftrightarrow> dropWhile isspace (rev s) = rev s"
    unfolding rstrip_def by (metis rev_rev_ident)
  also have "\<dots> \<longleftrightarrow> (rev s = [] \<or> \<not> isspace (hd (rev s)))"
    by (rule dropWhile_id_iff)
  finally show ?thesis by (auto simp: hd_rev)
qed

lemma rstrip_prefix: "\<exists>w. s = rstrip s @ w \<and> (\<forall>c \<in> set w. isspace c)"
proof -
  have "rev s = takeWhile isspace (rev s) @ dropWhile isspace (rev s)" by simp
  then have "s = rev (dropWhile isspace (rev s)) @ rev (takeWhile isspace (rev s))"
    by (metis rev_append rev_rev_ident)
  moreover have "\<forall>c \<in> set (rev (takeWhile isspace (rev s))). isspace c"
    by (auto dest: set_takeWhileD)
  ultimately show ?thesis unfolding rstrip_def by blast
qed

lemma hd_rstrip: "rstrip s \<noteq> [] \<Longrightarrow> hd (rstrip s) = hd s"
  using rstrip_prefix [of s] by (metis hd_append2)

lemma lstrip_lstrip: "lstrip (lstrip s) = lstrip s"
  unfolding lstrip_def by simp

lemma rstrip_rstrip: "rstrip (rstrip s) = rstrip s"
  unfolding rstrip_def by simp

lemma lstrip_rstrip: "lstrip s = s \<Longrightarrow> lstrip (rstrip s) = rstrip s"
  unfolding lstrip_id_iff using hd_rstrip [of s] by (cases "rstrip s = []") (auto simp: rstrip_def)

lemma strip_strip: "strip (strip s) = strip s"
  unfolding strip_def by (simp add: lstrip_rstrip lstrip_lstrip rstrip_rstrip)

lemma strip_id_iff: "strip s = s \<longleftrightarrow> (s = [] \<or> (\<not> isspace (hd s) \<and> \<not> isspace (last s)))"
proof
  assume "strip s = s"
  then have "lstrip s = s \<and> rstrip s = s"
    by (metis strip_def strip_strip lstrip_rstrip lstrip_lstrip rstrip_rstrip)
  then show "s = [] \<or> (\<not> isspace (hd s) \<and> \<not> isspace (last s))"
    by (auto simp: lstrip_id_iff rstrip_id_iff)
next
  assume "s = [] \<or> (\<not> isspace (hd s) \<and> \<not> isspace (last s))"
  then have "lstrip s = s" "rstrip s = s"
    by (auto simp: lstrip_id_iff rstrip_id_iff)
  then show "strip s = s" by (simp add: strip_def)
qed

lemma isspace_lower_char: "isspace (lower_char c) = isspace c"
  by (auto simp: isspace_def lower_char_def Let_def)

lemma lower_char_idem: "lower_char (lower_char c) = lower_char c"
  by (auto simp: lower_char_def Let_def)

lemma lower_lower: "lower (lower s) = lower s"
  by (simp add: lower_def lower_char_idem)

lemma lower_append: "lower (xs @ ys) = lower xs @ lower ys"
  by (simp add: lower_def)

lemma length_lower: "length (lower s) = length s"
  by (simp add: lower_def)

lemma contains_append_right: "contains sub ys \<Longrightarrow> contains sub (xs @ ys)"
  by (induction xs) auto

lemma alpha_not_space: "is_alpha_hyphen c \<Longrightarrow> \<not> isspace c"
  by (auto simp: is_alpha_hyphen_def isspace_def Let_def)

lemma strip_word:
  assumes "w \<noteq> []" and "\<forall>c \<in> set w. \<not> isspace c"
  shows "strip (pre @ w) = lstrip pre @ w" "strip w = w"
proof -
  from assms have l: "\<not> isspace (last w)" and h: "\<not> isspace (hd w)" by auto
  show "strip w = w" using assms(1) l h by (simp add: strip_id_iff)
  have "dropWhile isspace (rev (u @ w)) = rev (u @ w)" for u
    unfolding dropWhile_id_iff using assms(1) l by (simp add: hd_append hd_rev)
  then have r: "rstrip (u @ w) = u @ w" for u
    unfolding rstrip_def by (simp only: rev_rev_ident)
  have "lstrip (pre @ w) = lstrip pre @ w"
    unfolding lstrip_def using assms(2) by (simp add: dropWhile_append dropWhile_id_iff assms(1) h)
  then show "strip (pre @ w) = lstrip pre @ w" by (simp add: strip_def r)
qed

lemma py_strip_or_empty: "py_strip (py_or (PStr s) (PStr [])) = Inr (strip s)"
  by (simp add: py_or_def strip_def lstrip_def rstrip_def)


lemma last_lower_strip:
  assumes "lower (strip q) \<noteq> []"
  shows "\<not> isspace (last (lower (strip q)))"
proof -
  from assms have ne: "strip q \<noteq> []" by (auto simp: lower_def)
  have "strip (strip q) = strip q" by (rule strip_strip)
  with ne have "\<not> isspace (last (strip q))" by (simp add: strip_id_iff)
  with ne show ?thesis by (simp add: lower_def last_map isspace_lower_char)
qed


section \<open>What the matcher returns on the two patterns\<close>

lemma ms_Star_Cls:
  "ms (Star (Cls P)) (p, s, g) =
     map (\<lambda>k. (p + k, drop k s, g)) (rev [0..<Suc (length (takeWhile P s))])"
proof (induction s arbitrary: p)
  case Nil
  show ?case by simp
next
  case (Cons c cs)
  show ?case
  proof (cases "P c")
    case False
    then show ?thesis by simp
  next
    case True
    let ?n = "length (takeWhile P cs)"
    have "[0..<Suc (Suc ?n)] = 0 # [Suc 0..<Suc (Suc ?n)]"
      by (rule upt_conv_Cons) simp
    also have "[Suc 0..<Suc (Suc ?n)] = map Suc [0..<Suc ?n]"
      by (rule map_Suc_upt [symmetric])
    finally have "map (\<lambda>k. (p + k, drop k (c # cs), g)) (rev [0..<Suc (Suc ?n)])
        = map (\<lambda>k. (Suc p + k, drop k cs, g)) (rev [0..<Suc ?n]) @ [(p, c # cs, g)]"
      by (simp add: rev_map comp_def del: upt_Suc)
    with True Cons [of "Suc p"] show ?thesis by (simp del: upt_Suc)
  qed
qed

lemma ms_Plus_Cls:
  "ms (Plus (Cls P)) (p, s, g) =
     map (\<lambda>k. (p + k, drop k s, g)) (rev [1..<Suc (length (takeWhile P s))])"
proof (cases s)
  case Nil
  then show ?thesis by (simp add: Plus_def)
next
  case (Cons c cs)
  show ?thesis
  proof (cases "P c")
    case False
    with Cons show ?thesis by (simp add: Plus_def)
  next
    case True
    let ?n = "length (takeWhile P cs)"
    have "[1..<Suc (Suc ?n)] = map Suc [0..<Suc ?n]"
      unfolding One_nat_def by (rule map_Suc_upt [symmetric])
    then have "map (\<lambda>k. (p + k, drop k (c # cs), g)) (rev [1..<Suc (Suc ?n)])
        = map (\<lambda>k. (Suc p + k, drop k cs, g)) (rev [0..<Suc ?n])"
      by (simp add: rev_map comp_def del: upt_Suc)
    with True Cons show ?thesis
      by (simp add: Plus_def ms_Star_Cls del: upt_Suc ms.simps(6))
  qed
qed

lemma ms_Seq_first:
  assumes "ms a st = mid # ms'" and "ms b mid = y # ys"
  shows "\<exists>zs. ms (Seq a b) st = y # zs"
  using assms by (cases st) simp

lemma ms_Seq_mem:
  assumes "y \<in> set (ms (Seq a b) st)"
  shows "\<exists>mid. y \<in> set (ms b mid)"
  using assms by (cases st) auto

lemma takeWhile_all_stop:
  assumes "\<forall>c \<in> set w. P c" and "s = [] \<or> \<not> P (hd s)"
  shows "takeWhile P (w @ s) = w"
proof -
  from assms(2) have "takeWhile P s = []" by (cases s) auto
  with assms(1) show ?thesis by (simp add: takeWhile_append2)
qed

lemma ms_Star_Cls_first:
  assumes "\<forall>c \<in> set w. P c" and "s = [] \<or> \<not> P (hd s)"
  shows "\<exists>ys. ms (Star (Cls P)) (p, w @ s, g) = (p + length w, s, g) # ys"
  by (simp add: ms_Star_Cls takeWhile_all_stop [OF assms] del: ms.simps)

lemma ms_Plus_Cls_first:
  assumes "\<forall>c \<in> set w. P c" and "s = [] \<or> \<not> P (hd s)" and "w \<noteq> []"
  shows "\<exists>ys. ms (Plus (Cls P)) (p, w @ s, g) = (p + length w, s, g) # ys"
proof -
  from \<open>w \<noteq> []\<close> obtain n where n: "length w = Suc n" by (cases w) auto
  have "[1..<Suc (Suc n)] = [1..<Suc n] @ [Suc n]" by simp
  then show ?thesis
    by (simp add: ms_Plus_Cls takeWhile_all_stop [OF assms(1,2)] n del: upt_Suc)
qed

lemma ms_Plus_Cls_mem:
  assumes "(p', s', g') \<in> set (ms (Plus (Cls P)) (p, s, g))"
  shows "\<exists>k. 1 \<le> k \<and> k \<le> length (takeWhile P s) \<and> p' = p + k \<and> g' = g"
  using assms unfolding ms_Plus_Cls by auto

lemma take_takeWhile:
  assumes "k \<le> length (takeWhile P s)"
  shows "\<forall>c \<in> set (take k s). P c"
proof -
  have "take k s = take k (takeWhile P s @ dropWhile P s)" by simp
  also have "\<dots> = take k (takeWhile P s)" using assms by (simp del: takeWhile_dropWhile_id)
  finally have "set (take k s) \<subseteq> set (takeWhile P s)" by (simp add: set_take_subset)
  then show ?thesis by (auto dest: set_takeWhileD)
qed

lemma ms_Grp_Plus_Cls_mem:
  assumes "(p', s', g') \<in> set (ms (Grp n (Plus (Cls P))) (p, s, g))"
  shows "\<exists>w. g' n = Some w \<and> w \<noteq> [] \<and> (\<forall>c \<in> set w. P c)"
proof -
  from assms obtain p'' s'' g'' where
    m: "(p'', s'', g'') \<in> set (ms (Plus (Cls P)) (p, s, g))" and
    g': "g' = g''(n \<mapsto> take (p'' - p) s)"
    by auto
  from ms_Plus_Cls_mem [OF m] obtain k where
    k: "1 \<le> k" "k \<le> length (takeWhile P s)" "p'' = p + k" by blast
  have "length (takeWhile P s) \<le> length s" by (rule length_takeWhile_le)
  with k have "take k s \<noteq> []" by auto
  with k g' take_takeWhile [OF k(2)] show ?thesis by simp
qed

lemma fraction_rx_group:
  assumes "y \<in> set (ms fraction_rx st)"
  shows "\<exists>w. snd (snd y) 1 = Some w \<and> w \<noteq> [] \<and> (\<forall>c \<in> set w. is_alpha_hyphen c)"
proof -
  from assms obtain mid where "y \<in> set (ms (Grp 1 (Plus (Cls is_alpha_hyphen))) mid)"
    unfolding fraction_rx_def by (blast dest: ms_Seq_mem)
  then show ?thesis
    using ms_Grp_Plus_Cls_mem [of "fst y" "fst (snd y)" "snd (snd y)" 1 is_alpha_hyphen
        "fst mid" "fst (snd mid)" "snd (snd mid)"]
    by simp
qed

lemma search_from_result:
  assumes "search_from r p s = Some g"
  shows "\<exists>st p' s'. (p', s', g) \<in> set (ms r st)"
  using assms
proof (induction s arbitrary: p)
  case Nil
  then show ?case by (auto split: list.splits) (metis list.set_intros(1))
next
  case (Cons c cs)
  show ?case
  proof (cases "ms r (p, c # cs, \<lambda>_. None)")
    case Nil
    with Cons show ?thesis by simp
  next
    case (Cons y ys)
    with Cons.prems have "(fst y, fst (snd y), g) \<in> set (ms r (p, c # cs, \<lambda>_. None))"
      by (auto split: prod.splits)
    then show ?thesis by blast
  qed
qed

lemma fraction_search_group:
  assumes "re_search fraction_rx s = Some g"
  shows "\<exists>w. g 1 = Some w \<and> w \<noteq> [] \<and> (\<forall>c \<in> set w. is_alpha_hyphen c)"
proof -
  from assms obtain st p' s' where "(p', s', g) \<in> set (ms fraction_rx st)"
    unfolding re_search_def by (blast dest: search_from_result)
  from fraction_rx_group [OF this] show ?thesis by simp
qed

lemma article_tail_first:
  assumes "ws \<noteq> []" and "\<forall>c \<in> set ws. isspace c"
    and "phrase \<noteq> []" and "\<not> isspace (hd phrase)" and "newline \<notin> set phrase"
  shows "\<exists>p' ys. ms (Seq (Opt (Seq (Plus (Cls isspace)) (Grp 1 (Star (Cls (\<lambda>c. c \<noteq> newline))))))
                      Eol) (p, ws @ phrase, g)
                = (p', [], g(1 \<mapsto> phrase)) # ys"
proof -
  let ?p1 = "p + length ws"
  let ?y = "(?p1 + length phrase, [] :: string, g(1 \<mapsto> phrase))"
  from ms_Plus_Cls_first [OF assms(2) _ assms(1), of phrase p g] assms(4)
  obtain ys1 where 1: "ms (Plus (Cls isspace)) (p, ws @ phrase, g) = (?p1, phrase, g) # ys1"
    by blast
  from assms(5) have "\<forall>c \<in> set phrase. c \<noteq> newline" by blast
  from ms_Star_Cls_first [OF this, of "[]" ?p1 g]
  obtain ys2 where "ms (Star (Cls (\<lambda>c. c \<noteq> newline))) (?p1, phrase, g)
      = (?p1 + length phrase, [], g) # ys2"
    by auto
  then have "\<exists>ys. ms (Grp 1 (Star (Cls (\<lambda>c. c \<noteq> newline)))) (?p1, phrase, g) = ?y # ys"
    by (simp del: ms.simps(6))
  then obtain ys3 where 2: "ms (Grp 1 (Star (Cls (\<lambda>c. c \<noteq> newline)))) (?p1, phrase, g) = ?y # ys3"
    by blast
  from ms_Seq_first [OF 1 2] obtain ys4 where
    "ms (Seq (Plus (Cls isspace)) (Grp 1 (Star (Cls (\<lambda>c. c \<noteq> newline))))) (p, ws @ phrase, g)
       = ?y # ys4" by blast
  then have 3: "ms (Opt (Seq (Plus (Cls isspace)) (Grp 1 (Star (Cls (\<lambda>c. c \<noteq> newline))))))
       (p, ws @ phrase, g) = ?y # (ys4 @ [(p, ws @ phrase, g)])"
    by (simp del: ms.simps(3))
  have 4: "ms Eol ?y = [?y]" by simp
  from ms_Seq_first [OF 3 4] show ?thesis by blast
qed

lemma ms_Seq_Bol: "ms (Seq Bol r) (0, s, g) = ms r (0, s, g)"
  by simp

lemma article_match_phrase:
  assumes "art = ''a'' \<or> art = ''an''"
    and "ws \<noteq> []" and "\<forall>c \<in> set ws. isspace c"
    and "phrase \<noteq> []" and "\<not> isspace (hd phrase)" and "newline \<notin> set phrase"
  shows "\<exists>g. re_match article_rx (art @ ws @ phrase) = Some g \<and> g 1 = Some phrase"
proof -
  define T where "T = Seq (Opt (Seq (Plus (Cls isspace)) (Grp 1 (Star (Cls (\<lambda>c. c \<noteq> newline)))))) Eol"
  let ?g0 = "(\<lambda>_. None) :: groups"
  have tail: "\<exists>p' ys. ms T (p, ws @ phrase, ?g0) = (p', [], ?g0(1 \<mapsto> phrase)) # ys" for p
    unfolding T_def by (rule article_tail_first [OF assms(2-6)])
  have rx: "article_rx = Seq Bol (Seq (Alt (Lit ''a'') (Lit ''an'')) T)"
    by (simp add: article_rx_def T_def)
  from assms(2,3) have ws: "isspace (hd ws)" "ws = hd ws # tl ws" by auto
  from assms(1) show ?thesis
  proof
    assume a: "art = ''a''"
    from tail [of 1] obtain p' ys where
      t: "ms T (1, ws @ phrase, ?g0) = (p', [], ?g0(1 \<mapsto> phrase)) # ys" by blast
    have "ms (Alt (Lit ''a'') (Lit ''an'')) (0, art @ ws @ phrase, ?g0)
        = (1, ws @ phrase, ?g0) # ms (Lit ''an'') (0, art @ ws @ phrase, ?g0)"
      by (simp add: a)
    from ms_Seq_first [OF this t]
    have "\<exists>zs. ms article_rx (0, art @ ws @ phrase, ?g0) = (p', [], ?g0(1 \<mapsto> phrase)) # zs"
      by (simp add: rx ms_Seq_Bol del: ms.simps(3) ms.simps(4))
    then show ?thesis by (auto simp: re_match_def)
  next
    assume an: "art = ''an''"
    from tail [of 2] obtain p' ys where
      t: "ms T (2, ws @ phrase, ?g0) = (p', [], ?g0(1 \<mapsto> phrase)) # ys" by blast
    have alt: "ms (Alt (Lit ''a'') (Lit ''an'')) (0, art @ ws @ phrase, ?g0)
        = [(1, ''n'' @ ws @ phrase, ?g0), (2, ws @ phrase, ?g0)]"
      by (simp add: an)
    have dead: "ms T (Suc 0, CHR ''n'' # ws @ phrase, ?g0) = []"
      by (simp add: T_def Plus_def isspace_def newline_def)
    have "ms article_rx (0, art @ ws @ phrase, ?g0) = (p', [], ?g0(1 \<mapsto> phrase)) # ys"
      unfolding rx ms_Seq_Bol by (simp add: alt dead t del: ms.simps(4))
    then show ?thesis by (auto simp: re_match_def)
  qed
qed

lemma article_match_bare:
  "\<exists>g. re_match article_rx ''a'' = Some g \<and> g 1 = None"
  "\<exists>g. re_match article_rx ''an'' = Some g \<and> g 1 = None"
  by (simp_all add: re_match_def article_rx_def Plus_def isspace_def newline_def)

section \<open>The merged dict\<close>

lemma set_first_seen: "set (first_seen ks) = set ks"
  by (induction ks) auto

lemma distinct_first_seen: "distinct (first_seen ks)"
  by (induction ks) (auto simp: distinct_removeAll)

lemma first_seen_snoc:
  "first_seen (ks @ [k]) = (if k \<in> set ks then first_seen ks else first_seen ks @ [k])"
  by (induction ks) (auto simp: set_first_seen)

lemma map_of_dict_set: "map_of (dict_set d k v) = (map_of d)(k \<mapsto> v)"
  by (induction d k v rule: dict_set.induct) auto

lemma keys_dict_set:
  "map fst (dict_set d k v) = (if k \<in> fst ` set d then map fst d else map fst d @ [k])"
  by (induction d k v rule: dict_set.induct) (auto simp: image_iff)

lemma set_dict_set: "set (dict_set d k v) \<subseteq> insert (k, v) (set d)"
  by (induction d k v rule: dict_set.induct) auto

lemma keys_merge_step:
  "map fst (merge_step m p) =
     (if merge_key p \<in> fst ` set m then map fst m else map fst m @ [merge_key p])"
proof (cases "map_of m (merge_key p)")
  case None
  then have "merge_key p \<notin> fst ` set m" by (simp add: map_of_eq_None_iff)
  then show ?thesis
    unfolding merge_step_def Let_def None by (simp add: keys_dict_set)
next
  case (Some old)
  then have "(merge_key p, old) \<in> set m" by (rule map_of_SomeD)
  then have "merge_key p \<in> fst ` set m" by force
  then show ?thesis
    unfolding merge_step_def Let_def Some by (simp add: keys_dict_set)
qed

lemma keys_merged_dict: "map fst (merged_dict ps) = first_seen (map merge_key ps)"
  unfolding merged_dict_def
proof (induction ps rule: rev_induct)
  case Nil
  show ?case by simp
next
  case (snoc p ps)
  have "fst ` set (foldl merge_step [] ps) = set (map fst (foldl merge_step [] ps))" by simp
  also have "\<dots> = merge_key ` set ps" by (simp add: snoc set_first_seen)
  finally show ?case
    by (simp add: keys_merge_step first_seen_snoc snoc)
qed

lemma merge_step_keyed:
  assumes "\<forall>(k, v) \<in> set m. merge_key v = k"
  shows "\<forall>(k, v) \<in> set (merge_step m p). merge_key v = k"
proof -
  have "set (merge_step m p) \<subseteq> insert (merge_key p, p) (set m)"
    using set_dict_set [of m "merge_key p" p]
    by (auto simp: merge_step_def Let_def split: option.splits if_splits)
  with assms show ?thesis by auto
qed

lemma merged_dict_keyed: "\<forall>(k, v) \<in> set (merged_dict ps). merge_key v = k"
  unfolding merged_dict_def
  by (induction ps rule: rev_induct) (simp_all add: merge_step_keyed)

lemma keys_merge_duplicates:
  "map merge_key (merge_duplicates ps) = first_seen (map merge_key ps)"
proof -
  have "map merge_key (merge_duplicates ps) = map fst (merged_dict ps)"
    unfolding merge_duplicates_def using merged_dict_keyed [of ps] by auto
  then show ?thesis by (simp add: keys_merged_dict)
qed


lemma map_of_merge_step:
  "map_of (merge_step m p) =
     (map_of m)(merge_key p \<mapsto>
        (case map_of m (merge_key p) of
           None \<Rightarrow> p
         | Some stored \<Rightarrow> if quantity stored = [] \<and> quantity p \<noteq> [] then p else stored))"
proof (cases "map_of m (merge_key p)")
  case None
  then show ?thesis
    unfolding merge_step_def Let_def None by (simp add: map_of_dict_set)
next
  case (Some stored)
  then have "(map_of m)(merge_key p \<mapsto> stored) = map_of m" by (rule map_upd_triv)
  then show ?thesis
    unfolding merge_step_def Let_def Some by (simp add: map_of_dict_set)
qed

lemma merged_dict_snoc: "merged_dict (ps @ [p]) = merge_step (merged_dict ps) p"
  by (simp add: merged_dict_def)

lemma distinct_keys_merged_dict: "distinct (map fst (merged_dict ps))"
  by (simp add: keys_merged_dict distinct_first_seen)

section \<open>The normalizer: fraction words\<close>

text \<open>
  C1, as stated: when the quantity text contains \<open>half\<close> or \<open>quarter\<close> and a noun phrase is
  found after the fraction word, the name is replaced by the noun phrase and the quantity
  becomes the bare fraction whenever the noun phrase is a substring of the lower-cased
  name; in particular the name \<open>avocado\<close> with the quantity \<open>half an avocado\<close> yields the
  quantity \<open>1/2\<close>. The code does not: the noun phrase \<open>avocado\<close> is a substring of the name,
  but the name does not contain \<open>toast\<close>, and the quantity becomes \<open>1/2 avocado\<close>.
\<close>

theorem avocado_keeps_noun_phrase:
  "normalize_quantity_and_name ''avocado'' (PStr ''half an avocado'')
     \<noteq> Inr (''avocado'', ''1/2'')"
  by code_simp

text \<open>
  C1, amended. Let \<open>lqty\<close> be the lower-cased quantity text as the fraction rule reads it
  (trimmed, and rewritten by the article rule), let it contain \<open>half\<close> or \<open>quarter\<close>, and
  let the pattern of the rule match in it. Then group 1 of the match, the noun phrase, is
  set, and: if the lower-cased name contains both \<open>toast\<close> and the noun phrase, the result
  is the noun phrase as the name and the bare fraction as the quantity; otherwise the
  result is the trimmed name and the fraction, a space and the noun phrase as the
  quantity. The fraction is \<open>1/2\<close> when the text contains \<open>half\<close>, and \<open>1/4\<close> otherwise.
\<close>

theorem fraction_rule_normalize:
  assumes "lqty = lower (article_rule (strip s))"
    and "contains ''half'' lqty \<or> contains ''quarter'' lqty"
    and "re_search fraction_rx lqty = Some g"
    and "frac = (if contains ''half'' lqty then ''1/2'' else ''1/4'')"
  shows "\<exists>referred. g 1 = Some referred \<and>
    normalize_quantity_and_name nm (PStr s) =
      Inr (if contains ''toast'' (lower nm) \<and> contains referred (lower nm)
           then (referred, frac)
           else (strip nm, frac @ '' '' @ referred))"
proof -
  from fraction_search_group [OF assms(3)] obtain w where
    w: "g 1 = Some w" "w \<noteq> []" "\<forall>c \<in> set w. is_alpha_hyphen c" by blast
  then have ns: "\<forall>c \<in> set w. \<not> isspace c" by (blast dest: alpha_not_space)
  have f: "strip frac = frac" "lstrip (frac @ '' '') = frac @ '' ''"
    using assms(4) by (simp_all add: strip_def lstrip_def rstrip_def isspace_def)
  have "strip ((frac @ '' '') @ w) = lstrip (frac @ '' '') @ w"
    by (rule strip_word(1) [OF w(2) ns])
  with f have fw: "strip (frac @ CHR '' '' # w) = frac @ CHR '' '' # w" by simp
  have sw: "strip w = w" by (rule strip_word(2) [OF w(2) ns])
  have "fraction_rule nm (article_rule (strip s)) =
      (if contains ''toast'' (lower nm) \<and> contains w (lower nm)
       then Inr (w, frac) else Inr (nm, frac @ '' '' @ w))"
    using assms w(1) by (simp add: fraction_rule_def Let_def)
  then have "normalize_quantity_and_name nm (PStr s) =
      Inr (if contains ''toast'' (lower nm) \<and> contains w (lower nm)
           then (w, frac) else (strip nm, frac @ '' '' @ w))"
    by (simp add: normalize_quantity_and_name_def py_strip_or_empty f fw sw)
  with w(1) show ?thesis by blast
qed

theorem fraction_rule_normalize_witness:
  "normalize_quantity_and_name ''French Toast'' (PStr ''Half a french toast'')
     = Inr (''french'', ''1/2'')
   \<and> normalize_quantity_and_name ''milk'' (PStr ''a quarter cup'')
     = Inr (''milk'', ''1/4 cup'')"
proof -
  have l1: "''half a french toast'' = lower (article_rule (strip ''Half a french toast''))"
    by code_simp
  have h1: "contains ''half'' ''half a french toast'' \<or> contains ''quarter'' ''half a french toast''"
    by code_simp
  obtain g1 where g1: "re_search fraction_rx ''half a french toast'' = Some g1"
    and r1: "g1 1 = Some ''french''"
    by (simp add: re_search_def fraction_rx_def Plus_def isspace_def is_alpha_hyphen_def)
  have c1: "contains ''toast'' (lower ''French Toast'')"
    "contains ''french'' (lower ''French Toast'')" "contains ''half'' ''half a french toast''"
    by code_simp+
  from fraction_rule_normalize [OF l1 h1 g1 refl, of "''French Toast''"] r1 c1
  have a: "normalize_quantity_and_name ''French Toast'' (PStr ''Half a french toast'')
     = Inr (''french'', ''1/2'')"
    by simp
  have l2: "''1 quarter cup'' = lower (article_rule (strip ''a quarter cup''))"
    by code_simp
  have h2: "contains ''half'' ''1 quarter cup'' \<or> contains ''quarter'' ''1 quarter cup''"
    by code_simp
  obtain g2 where g2: "re_search fraction_rx ''1 quarter cup'' = Some g2"
    and r2: "g2 1 = Some ''cup''"
    by (simp add: re_search_def fraction_rx_def Plus_def isspace_def is_alpha_hyphen_def)
  have c2: "\<not> contains ''toast'' (lower ''milk'')" "\<not> contains ''half'' ''1 quarter cup''"
    "strip ''milk'' = ''milk''"
    by code_simp+
  from fraction_rule_normalize [OF l2 h2 g2 refl, of "''milk''"] r2 c2
  have b: "normalize_quantity_and_name ''milk'' (PStr ''a quarter cup'')
     = Inr (''milk'', ''1/4 cup'')"
    by simp
  from a b show ?thesis by simp
qed

text \<open>
  C2, as stated: normalizing the name \<open>toast\<close> with the quantity text
  \<open>half a slice of toast\<close> returns the name \<open>slice\<close> and the quantity \<open>1/2\<close>.
  The code does not: the noun phrase \<open>slice\<close> is not a substring of \<open>toast\<close>, so the
  name is not replaced.
\<close>

theorem toast_slice_not_renamed:
  "normalize_quantity_and_name ''toast'' (PStr ''half a slice of toast'')
     \<noteq> Inr (''slice'', ''1/2'')"
  by code_simp

text \<open>
  C2, amended: normalizing the name \<open>toast\<close> with the quantity text
  \<open>half a slice of toast\<close> returns the name \<open>toast\<close> and the quantity \<open>1/2 slice\<close>.
\<close>

theorem toast_slice_normalized:
  "normalize_quantity_and_name ''toast'' (PStr ''half a slice of toast'')
     = Inr (''toast'', ''1/2 slice'')"
  by code_simp

section \<open>The normalizer: articles\<close>

lemma normalize_article_phrase:
  assumes lq: "lower (strip q) = art @ ws @ phrase"
    and art: "art = ''a'' \<or> art = ''an''"
    and ws: "ws \<noteq> []" "\<forall>c \<in> set ws. isspace c"
    and ph: "phrase \<noteq> []" "\<not> isspace (hd phrase)" "newline \<notin> set phrase"
    and nh: "\<not> contains ''half'' (lower (strip q))"
    and nq: "\<not> contains ''quarter'' (lower (strip q))"
  shows "normalize_quantity_and_name nm (PStr q) = Inr (strip nm, ''1 '' @ phrase)"
proof -
  from article_match_phrase [OF art ws ph] lq obtain g where
    g: "re_match article_rx (lower (strip q)) = Some g" "g 1 = Some phrase" by auto
  with ph(1) have ar: "article_rule (strip q) = ''1 '' @ phrase"
    by (simp add: article_rule_def)
  have "lower (lower (strip q)) = lower (strip q)" by (rule lower_lower)
  then have "lower phrase = phrase"
    unfolding lq by (simp add: lower_append append_eq_append_conv length_lower)
  then have low: "lower (''1 '' @ phrase) = ''1 '' @ phrase"
    by (simp add: lower_def lower_char_def)
  have "\<not> contains ''half'' phrase" "\<not> contains ''quarter'' phrase"
    using nh nq contains_append_right [of _ phrase "art @ ws"] unfolding lq by auto
  then have "\<not> contains ''half'' (''1 '' @ phrase)" "\<not> contains ''quarter'' (''1 '' @ phrase)"
    by simp_all
  then have fr: "fraction_rule nm (''1 '' @ phrase) = Inr (nm, ''1 '' @ phrase)"
    by (simp only: fraction_rule_def low Let_def if_False simp_thms)
  from last_lower_strip [of q] lq ph(1) have "\<not> isspace (last phrase)" by simp
  then have "strip (''1 '' @ phrase) = ''1 '' @ phrase"
    using ph(1) by (simp add: strip_id_iff isspace_def)
  then show ?thesis
    by (simp only: normalize_quantity_and_name_def py_strip_or_empty ar fr sum.case prod.case)
qed

lemma normalize_article_bare:
  assumes "lower (strip q) = ''a'' \<or> lower (strip q) = ''an''"
  shows "normalize_quantity_and_name nm (PStr q) = Inr (strip nm, ''1'')"
proof -
  from assms article_match_bare obtain g where
    "re_match article_rx (lower (strip q)) = Some g" "g 1 = None" by metis
  then have ar: "article_rule (strip q) = ''1''"
    by (simp add: article_rule_def)
  have fr: "fraction_rule nm ''1'' = Inr (nm, ''1'')"
    by (simp add: fraction_rule_def lower_def lower_char_def)
  have "strip ''1'' = ''1''" by (simp add: strip_id_iff isspace_def)
  then show ?thesis
    by (simp only: normalize_quantity_and_name_def py_strip_or_empty ar fr sum.case prod.case)
qed

text \<open>
  C3, as stated: whenever the trimmed quantity text is, without regard to case, \<open>a\<close> or
  \<open>an\<close> followed by a noun phrase, the quantity becomes \<open>1\<close> followed by that noun phrase.
  The code does not when the noun phrase holds a fraction word: the fraction rule runs on
  the rewritten text, and \<open>a half cup\<close> becomes \<open>1/2 cup\<close>, not \<open>1 half cup\<close>.
\<close>

theorem article_then_fraction:
  "normalize_quantity_and_name ''milk'' (PStr ''a half cup'') \<noteq> Inr (''milk'', ''1 half cup'')"
  by code_simp

text \<open>
  C3, amended. Let the trimmed, lower-cased quantity text contain neither \<open>half\<close> nor
  \<open>quarter\<close>. If it is \<open>a\<close> or \<open>an\<close>, then whitespace, then a noun phrase that holds no
  line break, the quantity becomes \<open>1\<close>, one space and the lower-cased noun phrase; if it
  is \<open>a\<close> or \<open>an\<close> alone, the quantity becomes \<open>1\<close>. The name is only trimmed. In
  particular \<open>a slice\<close> becomes \<open>1 slice\<close> and \<open>an apple\<close> becomes \<open>1 apple\<close>.
\<close>

theorem article_rule_normalize:
  "(lower (strip q) = art @ ws @ phrase \<and> (art = ''a'' \<or> art = ''an'') \<and>
    ws \<noteq> [] \<and> (\<forall>c \<in> set ws. isspace c) \<and>
    phrase \<noteq> [] \<and> \<not> isspace (hd phrase) \<and> newline \<notin> set phrase \<and>
    \<not> contains ''half'' (lower (strip q)) \<and> \<not> contains ''quarter'' (lower (strip q))
    \<longrightarrow> normalize_quantity_and_name nm (PStr q) = Inr (strip nm, ''1 '' @ phrase))
   \<and> (lower (strip q) = ''a'' \<or> lower (strip q) = ''an''
    \<longrightarrow> normalize_quantity_and_name nm (PStr q) = Inr (strip nm, ''1''))
   \<and> normalize_quantity_and_name nm (PStr ''a slice'') = Inr (strip nm, ''1 slice'')
   \<and> normalize_quantity_and_name nm (PStr ''an apple'') = Inr (strip nm, ''1 apple'')"
proof -
  have 1: "lower (strip ''a slice'') = ''a'' @ '' '' @ ''slice''" by code_simp
  have 2: "lower (strip ''an apple'') = ''an'' @ '' '' @ ''apple''" by code_simp
  have sp: "\<forall>c \<in> set '' ''. isspace c" by (simp add: isspace_def)
  have a: "normalize_quantity_and_name nm (PStr ''a slice'') = Inr (strip nm, ''1 '' @ ''slice'')"
    by (rule normalize_article_phrase [OF 1 _ _ sp]; code_simp)
  have b: "normalize_quantity_and_name nm (PStr ''an apple'') = Inr (strip nm, ''1 '' @ ''apple'')"
    by (rule normalize_article_phrase [OF 2 _ _ sp]; code_simp)
  from a b show ?thesis
    using normalize_article_phrase [of q art ws phrase nm] normalize_article_bare [of q nm]
    by auto
qed

theorem article_rule_normalize_witness:
  "normalize_quantity_and_name ''bread'' (PStr '' A   Slice '') = Inr (''bread'', ''1 slice'')
   \<and> normalize_quantity_and_name ''egg'' (PStr ''An'') = Inr (''egg'', ''1'')"
proof -
  have 1: "lower (strip '' A   Slice '') = ''a'' @ ''   '' @ ''slice''" by code_simp
  have 2: "\<forall>c \<in> set ''   ''. isspace c" by (simp add: isspace_def)
  have 3: "\<not> isspace (hd ''slice'')" "newline \<notin> set ''slice''"
    "\<not> contains ''half'' (lower (strip '' A   Slice ''))"
    "\<not> contains ''quarter'' (lower (strip '' A   Slice ''))"
    by code_simp+
  have 4: "lower (strip ''An'') = ''an''" by code_simp
  have 5: "strip ''bread'' = ''bread''" "strip ''egg'' = ''egg''" by code_simp+
  from article_rule_normalize [of "'' A   Slice ''" "''a''" "''   ''" "''slice''" "''bread''"]
    1 2 3 5
  have a: "normalize_quantity_and_name ''bread'' (PStr '' A   Slice '') = Inr (''bread'', ''1 slice'')"
    by simp
  from article_rule_normalize [of "''An''" _ _ _ "''egg''"] 4 5
  have b: "normalize_quantity_and_name ''egg'' (PStr ''An'') = Inr (''egg'', ''1'')"
    by simp
  from a b show ?thesis by simp
qed

section \<open>Merging duplicates\<close>

text \<open>
  C4: the merged dict, keyed by the lower-cased trimmed name, starts empty and is folded
  over the normalized entries from left to right. An entry whose key is new is stored; an
  entry whose key is present replaces the stored entry exactly when the stored quantity
  is empty and the new quantity is not; no other key changes. The output holds the values
  of the dict. In particular the entries \<open>Tomato\<close> with an empty quantity and \<open>tomato\<close>
  with \<open>2 slices\<close> merge into the one entry \<open>tomato\<close>, \<open>2 slices\<close>.
\<close>

theorem merge_is_preferring_fold:
  "map_of (merged_dict []) = Map.empty
   \<and> map_of (merged_dict (ps @ [p])) =
       (map_of (merged_dict ps))(lower (strip (name p)) \<mapsto>
          (case map_of (merged_dict ps) (lower (strip (name p))) of
             None \<Rightarrow> p
           | Some stored \<Rightarrow> if quantity stored = [] \<and> quantity p \<noteq> [] then p else stored))
   \<and> set (merge_duplicates ps) = ran (map_of (merged_dict ps))
   \<and> merge_duplicates
        [\<lparr>name = ''Tomato'', quantity = []\<rparr>, \<lparr>name = ''tomato'', quantity = ''2 slices''\<rparr>]
       = [\<lparr>name = ''tomato'', quantity = ''2 slices''\<rparr>]"
proof -
  have 1: "map_of (merged_dict []) = Map.empty" by (simp add: merged_dict_def)
  have 2: "map_of (merged_dict (ps @ [p])) =
       (map_of (merged_dict ps))(lower (strip (name p)) \<mapsto>
          (case map_of (merged_dict ps) (lower (strip (name p))) of
             None \<Rightarrow> p
           | Some stored \<Rightarrow> if quantity stored = [] \<and> quantity p \<noteq> [] then p else stored))"
    unfolding merged_dict_snoc map_of_merge_step merge_key_def ..
  have 3: "set (merge_duplicates ps) = ran (map_of (merged_dict ps))"
    unfolding merge_duplicates_def
    by (simp add: ran_distinct [OF distinct_keys_merged_dict])
  have 4: "merge_duplicates
        [\<lparr>name = ''Tomato'', quantity = []\<rparr>, \<lparr>name = ''tomato'', quantity = ''2 slices''\<rparr>]
       = [\<lparr>name = ''tomato'', quantity = ''2 slices''\<rparr>]"
    by code_simp
  from 1 2 3 4 show ?thesis by blast
qed

text \<open>
  C5: the output lists the entries in the order in which their keys, the lower-cased
  trimmed names, were first seen in the input, also when a later entry has replaced the
  stored one: \<open>Egg\<close> without a quantity, then \<open>milk\<close>, then \<open>egg\<close> with the quantity \<open>2\<close>
  gives \<open>egg\<close> first and \<open>milk\<close> second.
\<close>

theorem merge_keeps_first_seen_order:
  "map (\<lambda>p. lower (strip (name p))) (merge_duplicates ps)
     = first_seen (map (\<lambda>p. lower (strip (name p))) ps)
   \<and> merge_duplicates
        [\<lparr>name = ''Egg'', quantity = []\<rparr>, \<lparr>name = ''milk'', quantity = ''1 cup''\<rparr>,
         \<lparr>name = ''egg'', quantity = ''2''\<rparr>]
       = [\<lparr>name = ''egg'', quantity = ''2''\<rparr>, \<lparr>name = ''milk'', quantity = ''1 cup''\<rparr>]"
proof -
  have "map merge_key (merge_duplicates ps) = first_seen (map merge_key ps)"
    by (rule keys_merge_duplicates)
  then have 1: "map (\<lambda>p. lower (strip (name p))) (merge_duplicates ps)
     = first_seen (map (\<lambda>p. lower (strip (name p))) ps)"
    unfolding merge_key_def .
  have 2: "merge_duplicates
        [\<lparr>name = ''Egg'', quantity = []\<rparr>, \<lparr>name = ''milk'', quantity = ''1 cup''\<rparr>,
         \<lparr>name = ''egg'', quantity = ''2''\<rparr>]
       = [\<lparr>name = ''egg'', quantity = ''2''\<rparr>, \<lparr>name = ''milk'', quantity = ''1 cup''\<rparr>]"
    by code_simp
  from 1 2 show ?thesis by blast
qed

section \<open>The normalizer when no rule applies\<close>

lemma article_no_match_empty: "re_match article_rx [] = None"
  by code_simp

lemma article_rule_no_match: "re_match article_rx (lower q) = None \<Longrightarrow> article_rule q = q"
  by (simp add: article_rule_def)

lemma fraction_rule_no_match:
  "\<not> contains ''half'' (lower q) \<Longrightarrow> \<not> contains ''quarter'' (lower q) \<Longrightarrow>
   fraction_rule nm q = Inr (nm, q)"
  by (simp add: fraction_rule_def)

text \<open>On a quantity that is a string or \<open>None\<close> the normalizer returns a pair.\<close>

lemma fraction_rule_returns: "\<exists>n q. fraction_rule nm qty = Inr (n, q)"
proof (cases "re_search fraction_rx (lower qty)")
  case None
  then show ?thesis by (simp add: fraction_rule_def Let_def)
next
  case (Some g)
  from fraction_search_group [OF Some] obtain w where "g 1 = Some w" by blast
  with Some show ?thesis by (simp add: fraction_rule_def Let_def)
qed

lemma normalize_returns:
  "\<exists>n q. normalize_quantity_and_name nm (PStr s) = Inr (n, q)"
  "\<exists>n q. normalize_quantity_and_name nm PNone = Inr (n, q)"
proof -
  have "\<exists>n q. normalize_quantity_and_name nm (PStr t) = Inr (n, q)" for t
    using fraction_rule_returns [of nm "article_rule (strip t)"]
    by (auto simp: normalize_quantity_and_name_def py_strip_or_empty)
  moreover have "normalize_quantity_and_name nm PNone = normalize_quantity_and_name nm (PStr [])"
    by (simp add: normalize_quantity_and_name_def py_or_def)
  ultimately show "\<exists>n q. normalize_quantity_and_name nm (PStr s) = Inr (n, q)"
    "\<exists>n q. normalize_quantity_and_name nm PNone = Inr (n, q)"
    by simp_all
qed

text \<open>
  C6: when the trimmed, lower-cased quantity text does not match the article pattern and
  contains neither \<open>half\<close> nor \<open>quarter\<close>, the normalizer returns, without raising, the
  trimmed name and the trimmed quantity text; a quantity that is \<open>None\<close> gives the trimmed
  name and the empty quantity.
\<close>

theorem normalize_passes_through:
  "(re_match article_rx (lower (strip s)) = None \<and>
    \<not> contains ''half'' (lower (strip s)) \<and> \<not> contains ''quarter'' (lower (strip s))
    \<longrightarrow> normalize_quantity_and_name nm (PStr s) = Inr (strip nm, strip s))
   \<and> normalize_quantity_and_name nm PNone = Inr (strip nm, [])"
proof -
  have empty: "strip [] = []" by (simp add: strip_def lstrip_def rstrip_def)
  have lower_empty: "lower [] = []" by (simp add: lower_def)
  have none: "normalize_quantity_and_name nm PNone = Inr (strip nm, [])"
    by (simp add: normalize_quantity_and_name_def py_or_def empty lower_empty
        article_rule_no_match article_no_match_empty fraction_rule_no_match)
  have str: "normalize_quantity_and_name nm (PStr s) = Inr (strip nm, strip s)"
    if "re_match article_rx (lower (strip s)) = None"
      and "\<not> contains ''half'' (lower (strip s))" and "\<not> contains ''quarter'' (lower (strip s))"
    using that
    by (simp add: normalize_quantity_and_name_def py_strip_or_empty article_rule_no_match
        fraction_rule_no_match strip_strip)
  from none str show ?thesis by blast
qed

theorem normalize_passes_through_witness:
  "normalize_quantity_and_name '' Tomato '' (PStr '' 2 slices '') = Inr (''Tomato'', ''2 slices'')
   \<and> normalize_quantity_and_name '' Tomato '' PNone = Inr (''Tomato'', [])"
proof -
  have a: "re_match article_rx (lower (strip '' 2 slices '')) = None" by code_simp
  have b: "\<not> contains ''half'' (lower (strip '' 2 slices ''))" by code_simp
  have c: "\<not> contains ''quarter'' (lower (strip '' 2 slices ''))" by code_simp
  have d: "strip '' Tomato '' = ''Tomato''" by code_simp
  have e: "strip '' 2 slices '' = ''2 slices''" by code_simp
  from normalize_passes_through [of "'' 2 slices ''" "'' Tomato ''"] a b c
  show ?thesis unfolding d e by blast
qed

section \<open>The responses of the route\<close>

text \<open>Without a JSON body, and on a JSON object without the field, the answer is 400.\<close>

lemma parse_route_no_json:
  "parse_route e None = Inr (400, ErrorBody ''missing 'text' in JSON body'')"
  by (simp add: parse_route_def get_json_def)

lemma parse_route_object_without_text:
  "''text'' \<notin> fst ` set d \<Longrightarrow>
   parse_route e (Some (JObj d)) = Inr (400, ErrorBody ''missing 'text' in JSON body'')"
  by (simp add: parse_route_def get_json_def Let_def)

text \<open>
  C7 asks for status 400 and the body \<open>missing 'text' in JSON body\<close> whenever the JSON
  body has no \<open>text\<close> field. On a body that is not a JSON object the test \<open>"text" not in
  payload\<close> does not ask for a field: on the number \<open>5\<close> it raises \<open>TypeError\<close> outside
  every \<open>try\<close>, and the route returns no response of its own.
\<close>

theorem number_body_raises:
  "parse_route e (Some (JNum 5)) = Inl (not_iterable ''int'')"
  by (simp add: parse_route_def get_json_def)

lemma parse_ingredients_extractor_raises:
  "ex text = Inl err \<Longrightarrow> parse_ingredients e text (Some ex) = Inl err"
  by (simp add: parse_ingredients_def)

lemma parse_route_object:
  assumes "map_of d ''text'' = Some text"
  shows "parse_route e (Some (JObj d)) =
    (case load_extractor e (use_api_of e) (DEFAULT_MODEL e) of
       Inl err \<Rightarrow> Inr (500, ErrorBody (str_exn err))
     | Inr ex \<Rightarrow>
         (case parse_ingredients e text (Some ex) of
            Inl err \<Rightarrow> Inr (500, ErrorBody (''parse failed: '' @ str_exn err))
          | Inr ingredients \<Rightarrow> Inr (200, IngredientsBody ingredients)))"
proof -
  from assms have "(''text'', text) \<in> set d" by (rule map_of_SomeD)
  then have "''text'' \<in> fst ` set d" by force
  moreover from this have "d \<noteq> []" by auto
  ultimately show ?thesis using assms
    by (simp add: parse_route_def get_json_def)
qed

text \<open>
  C8: for a request whose JSON object has a \<open>text\<close> field, a failure to load the extractor
  gives status 500 with the message of the exception as the \<open>error\<close> field; an exception
  raised by the extractor, or anywhere in \<open>parse_ingredients\<close>, gives status 500 with
  \<open>parse failed:\<close> and the message; otherwise the status is 200 and the \<open>ingredients\<close>
  field is the list that \<open>parse_ingredients\<close> returns.
\<close>

theorem parse_route_with_text:
  assumes "map_of d ''text'' = Some text"
  shows
    "(load_extractor e (use_api_of e) (DEFAULT_MODEL e) = Inl err \<longrightarrow>
        parse_route e (Some (JObj d)) = Inr (500, ErrorBody (str_exn err)))
   \<and> (load_extractor e (use_api_of e) (DEFAULT_MODEL e) = Inr ex \<and> ex text = Inl err \<longrightarrow>
        parse_route e (Some (JObj d)) = Inr (500, ErrorBody (''parse failed: '' @ str_exn err)))
   \<and> (load_extractor e (use_api_of e) (DEFAULT_MODEL e) = Inr ex \<and>
      parse_ingredients e text (Some ex) = Inl err \<longrightarrow>
        parse_route e (Some (JObj d)) = Inr (500, ErrorBody (''parse failed: '' @ str_exn err)))
   \<and> (load_extractor e (use_api_of e) (DEFAULT_MODEL e) = Inr ex \<and>
      parse_ingredients e text (Some ex) = Inr ingredients \<longrightarrow>
        parse_route e (Some (JObj d)) = Inr (200, IngredientsBody ingredients))"
  by (simp add: parse_route_object [OF assms] parse_ingredients_extractor_raises)

theorem parse_route_with_text_witness:
  "parse_route \<lparr>GLiNER2 = None, PIONEER_API_KEY = None, DEFAULT_MODEL = ''m''\<rparr>
      (Some (JObj [(''text'', JStr ''tomato'')]))
     = Inr (500, ErrorBody
         ''GLiNER2 library not available; install gliner2 or set PIONEER_API_KEY to use API mode'')
   \<and> parse_route
        \<lparr>GLiNER2 = Some \<lparr>from_api = Inr (\<lambda>_. Inl (Raised ''model error'')),
                           from_pretrained = \<lambda>_. Inl (Raised ''no model'')\<rparr>,
         PIONEER_API_KEY = Some ''key'', DEFAULT_MODEL = ''m''\<rparr>
        (Some (JObj [(''text'', JStr ''tomato'')]))
     = Inr (500, ErrorBody ''parse failed: model error'')
   \<and> parse_route
        \<lparr>GLiNER2 = Some \<lparr>from_api = Inl (Raised ''no key''),
                           from_pretrained = \<lambda>_. Inr (\<lambda>_. Inr (Some
                             [[(''name'', PStr ''Tomato'')],
                              [(''name'', PStr ''tomato''), (''quantity'', PStr ''2 slices'')]]))\<rparr>,
         PIONEER_API_KEY = None, DEFAULT_MODEL = ''m''\<rparr>
        (Some (JObj [(''text'', JStr ''tomato'')]))
     = Inr (200, IngredientsBody [\<lparr>name = ''tomato'', quantity = ''2 slices''\<rparr>])"
proof -
  let ?body = "[(''text'', JStr ''tomato'')]"
  let ?e1 = "\<lparr>GLiNER2 = None, PIONEER_API_KEY = None, DEFAULT_MODEL = ''m''\<rparr>"
  let ?ex2 = "(\<lambda>_. Inl (Raised ''model error'')) :: extractor"
  let ?e2 = "\<lparr>GLiNER2 = Some \<lparr>from_api = Inr ?ex2,
                           from_pretrained = \<lambda>_. Inl (Raised ''no model'')\<rparr>,
         PIONEER_API_KEY = Some ''key'', DEFAULT_MODEL = ''m''\<rparr>"
  let ?ex3 = "(\<lambda>_. Inr (Some
                             [[(''name'', PStr ''Tomato'')],
                              [(''name'', PStr ''tomato''), (''quantity'', PStr ''2 slices'')]])) :: extractor"
  let ?e3 = "\<lparr>GLiNER2 = Some \<lparr>from_api = Inl (Raised ''no key''),
                           from_pretrained = \<lambda>_. Inr ?ex3\<rparr>,
         PIONEER_API_KEY = None, DEFAULT_MODEL = ''m''\<rparr>"
  have t: "map_of ?body ''text'' = Some (JStr ''tomato'')" by simp
  have l1: "load_extractor ?e1 (use_api_of ?e1) (DEFAULT_MODEL ?e1) = Inl (RuntimeError
         ''GLiNER2 library not available; install gliner2 or set PIONEER_API_KEY to use API mode'')"
    by (simp add: load_extractor_def use_api_of_def)
  have l2: "load_extractor ?e2 (use_api_of ?e2) (DEFAULT_MODEL ?e2) = Inr ?ex2"
    by (simp add: load_extractor_def use_api_of_def)
  have x2: "?ex2 (JStr ''tomato'') = Inl (Raised ''model error'')" by simp
  have l3: "load_extractor ?e3 (use_api_of ?e3) (DEFAULT_MODEL ?e3) = Inr ?ex3"
    by (simp add: load_extractor_def use_api_of_def)
  have p3: "parse_ingredients ?e3 (JStr ''tomato'') (Some ?ex3)
      = Inr [\<lparr>name = ''tomato'', quantity = ''2 slices''\<rparr>]"
    by code_simp
  from parse_route_with_text [OF t, where e = ?e1 and err = "RuntimeError
         ''GLiNER2 library not available; install gliner2 or set PIONEER_API_KEY to use API mode''"] l1
  have r1: "parse_route ?e1 (Some (JObj ?body)) = Inr (500, ErrorBody
         ''GLiNER2 library not available; install gliner2 or set PIONEER_API_KEY to use API mode'')"
    by simp
  from parse_route_with_text [OF t, where e = ?e2 and ex = ?ex2 and err = "Raised ''model error''"] l2 x2
  have r2: "parse_route ?e2 (Some (JObj ?body)) = Inr (500, ErrorBody ''parse failed: model error'')"
    by simp
  from parse_route_with_text [OF t, where e = ?e3 and ex = ?ex3
      and ingredients = "[\<lparr>name = ''tomato'', quantity = ''2 slices''\<rparr>]"] l3 p3
  have r3: "parse_route ?e3 (Some (JObj ?body))
      = Inr (200, IngredientsBody [\<lparr>name = ''tomato'', quantity = ''2 slices''\<rparr>])"
    by simp
  from r1 r2 r3 show ?thesis by simp
qed

section \<open>The parsed list\<close>

text \<open>
  C9: whenever \<open>parse_ingredients\<close> returns a list, no two of its entries have names that
  are equal after trimming and lower-casing.
\<close>

theorem parse_ingredients_distinct_names:
  assumes "parse_ingredients e text extractor = Inr out"
  shows "distinct (map (\<lambda>p. lower (strip (name p))) out)"
proof -
  from assms obtain parsed where "out = merge_duplicates parsed"
    by (auto simp: parse_ingredients_def split: sum.splits)
  then have "map merge_key out = first_seen (map merge_key parsed)"
    by (simp add: keys_merge_duplicates)
  then have "distinct (map merge_key out)" by (simp add: distinct_first_seen)
  then show ?thesis unfolding merge_key_def .
qed

theorem parse_ingredients_distinct_names_witness:
  "parse_ingredients \<lparr>GLiNER2 = None, PIONEER_API_KEY = None, DEFAULT_MODEL = ''m''\<rparr>
      (JStr ''a slice of tomato, an egg and a tomato'')
      (Some (\<lambda>_. Inr (Some
         [[(''name'', PStr ''Tomato ''), (''quantity'', PStr ''a slice'')],
          [(''name'', PDict [(''text'', PStr ''egg'')]), (''quantity'', PStr ''an'')],
          [(''name'', PStr ''tomato'')]])))
     = Inr [\<lparr>name = ''Tomato'', quantity = ''1 slice''\<rparr>, \<lparr>name = ''egg'', quantity = ''1''\<rparr>]
   \<and> distinct (map (\<lambda>p. lower (strip (name p)))
        [\<lparr>name = ''Tomato'', quantity = ''1 slice''\<rparr>, \<lparr>name = ''egg'', quantity = ''1''\<rparr>])"
proof -
  have p: "parse_ingredients \<lparr>GLiNER2 = None, PIONEER_API_KEY = None, DEFAULT_MODEL = ''m''\<rparr>
      (JStr ''a slice of tomato, an egg and a tomato'')
      (Some (\<lambda>_. Inr (Some
         [[(''name'', PStr ''Tomato ''), (''quantity'', PStr ''a slice'')],
          [(''name'', PDict [(''text'', PStr ''egg'')]), (''quantity'', PStr ''an'')],
          [(''name'', PStr ''tomato'')]])))
     = Inr [\<lparr>name = ''Tomato'', quantity = ''1 slice''\<rparr>, \<lparr>name = ''egg'', quantity = ''1''\<rparr>]"
    by code_simp
  from p parse_ingredients_distinct_names [OF p] show ?thesis by blast
qed

text \<open>
  An item whose name is missing, \<open>None\<close> or empty, as it is or under the key \<open>text\<close> of a
  dict, adds no entry; every entry comes from an item with a non-empty name string, trimmed
  and normalized.
\<close>

lemma parse_items_skips:
  "\<not> truthy (unwrap (dict_get item ''name'')) \<Longrightarrow> parse_items (item # items) = parse_items items"
  by (simp add: Let_def)

lemma parse_items_names:
  assumes "parse_items items = Inr parsed" and "p \<in> set parsed"
  shows "\<exists>item \<in> set items. \<exists>raw q. unwrap (dict_get item ''name'') = PStr raw \<and> raw \<noteq> [] \<and>
           normalize_quantity_and_name (strip raw) (unwrap (dict_get item ''quantity''))
             = Inr (name p, q)"
  using assms
proof (induction items arbitrary: parsed)
  case Nil
  then show ?case by simp
next
  case (Cons item items)
  show ?case
  proof (cases "truthy (unwrap (dict_get item ''name''))")
    case False
    with Cons show ?thesis by (auto simp: Let_def)
  next
    case True
    then show ?thesis
      using Cons
      by (cases "unwrap (dict_get item ''name'')")
         (auto simp: Let_def split: sum.splits prod.splits)
  qed
qed

text \<open>
  C10 concludes that every entry of the returned list has a non-empty name. The loop
  tests the name before it trims it: an item whose name is a single space passes the test,
  and its entry has the empty name.
\<close>

theorem blank_name_kept:
  "parse_ingredients e t (Some (\<lambda>_. Inr (Some [[(''name'', PStr '' '')]])))
     = Inr [\<lparr>name = [], quantity = []\<rparr>]"
  by code_simp

end
